theory Spec2Isabelle
  imports Main
begin

text \<open>
  The embedding follows the main build of the tool, the one with the filter for ignored
  files. \<^verbatim>\<open>cli/src/cli.ts\<close> is an earlier copy of it, without the filter, the submodule
  flag and the counters of the summary; where a statement below is about both, the copy has
  a definition of its own, with the suffix \<open>_cli\<close>.
\<close>

section \<open>Strings\<close>

text \<open>
  A JavaScript string is modelled as a \<^typ>\<open>string\<close>: one \<^typ>\<open>char\<close> stands for one
  UTF-16 code unit in the range U+0000 .. U+00FF. Within that range the character classes
  of the regular expression engine and of \<^verbatim>\<open>parseInt\<close> are the ones below.
\<close>

definition LF :: char where
  "LF = CHR 0x0A"

definition CR :: char where
  "CR = CHR 0x0D"

text \<open>\<^verbatim>\<open>s.startsWith(p)\<close>\<close>

definition startsWith :: "string \<Rightarrow> string \<Rightarrow> bool" where
  "startsWith s p = (take (length p) s = p)"

text \<open>\<^verbatim>\<open>s.split("\n")\<close>: the empty string gives one empty line.\<close>

fun split_nl :: "string \<Rightarrow> string list" where
  "split_nl [] = [[]]"
| "split_nl (c # cs) =
     (if c = LF then [] # split_nl cs
      else (case split_nl cs of
              l # ls \<Rightarrow> (c # l) # ls
            | [] \<Rightarrow> [[c]]))"

text \<open>\<^verbatim>\<open>lines.join("\n")\<close>: the empty array gives the empty string.\<close>

fun join_nl :: "string list \<Rightarrow> string" where
  "join_nl [] = []"
| "join_nl [l] = l"
| "join_nl (l # m # ls) = l @ LF # join_nl (m # ls)"

text \<open>
  The regular expression's \<^verbatim>\<open>.\<close> matches every code unit that is not a line
  terminator; \<^verbatim>\<open>\s\<close> matches white space and line terminators.
\<close>

definition is_line_terminator :: "char \<Rightarrow> bool" where
  "is_line_terminator c = (c = LF \<or> c = CR)"

definition is_whitespace :: "char \<Rightarrow> bool" where
  "is_whitespace c =
     (c = CHR 0x09 \<or> c = LF \<or> c = CHR 0x0B \<or> c = CHR 0x0C \<or> c = CR \<or> c = CHR '' '' \<or> c = CHR 0xA0)"

section \<open>The header pattern\<close>

text \<open>
  \<^verbatim>\<open>line.match(/diff --git a\/(.+?)\s+b\/(.+?)$/)\<close>

  The pattern is not anchored at the start, so the engine tries every start position from
  the left. At one start position, after the literal \<^verbatim>\<open>diff --git a/\<close>, the first group
  is lazy: it is tried with one character, then two, and so on, and stops growing at a line
  terminator. After the group, \<^verbatim>\<open>\s+\<close> is greedy, and since the literal \<^verbatim>\<open>b/\<close> that
  follows starts with a character that is not white space, it can only succeed on the whole
  run of white space. The second group is followed by \<^verbatim>\<open>$\<close> (end of input, there is no
  \<^verbatim>\<open>m\<close> flag), so it is the whole rest, which must be non-empty and free of line terminators.
\<close>

definition after_group1 :: "string \<Rightarrow> string option" where
  "after_group1 s =
     (let ws = takeWhile is_whitespace s;
          r = dropWhile is_whitespace s;
          g2 = drop 2 r
      in if ws \<noteq> [] \<and> startsWith r ''b/'' \<and> g2 \<noteq> [] \<and> list_all (\<lambda>c. \<not> is_line_terminator c) g2
         then Some g2 else None)"

fun match_groups :: "string \<Rightarrow> string \<Rightarrow> (string \<times> string) option" where
  "match_groups g1 [] = None"
| "match_groups g1 (c # cs) =
     (if is_line_terminator c then None
      else (case after_group1 cs of
              Some g2 \<Rightarrow> Some (g1 @ [c], g2)
            | None \<Rightarrow> match_groups (g1 @ [c]) cs))"

fun header_match :: "string \<Rightarrow> (string \<times> string) option" where
  "header_match [] = None"
| "header_match (c # cs) =
     (if startsWith (c # cs) ''diff --git a/'' then
        (case match_groups [] (drop 13 (c # cs)) of
           Some m \<Rightarrow> Some m
         | None \<Rightarrow> header_match cs)
      else header_match cs)"

section \<open>The diff section filter\<close>

text \<open>
  \<^verbatim>\<open>isPathIgnored\<close> asks \<^verbatim>\<open>git check-ignore\<close>; the filter takes it as a predicate on paths.
  The effective path of a header: \<^verbatim>\<open>newPath !== "/dev/null" ? newPath : oldPath\<close>.
\<close>

definition filePath_of :: "string \<Rightarrow> string \<Rightarrow> string" where
  "filePath_of oldPath newPath = (if newPath \<noteq> ''/dev/null'' then newPath else oldPath)"

text \<open>
  The \<^verbatim>\<open>for\<close> loop of \<^verbatim>\<open>filterIgnoredFilesFromDiff\<close>, on the lines from index \<open>i\<close> on.
  The inner \<^verbatim>\<open>while\<close> loop, which moves \<open>i\<close> to the next line that starts with
  \<^verbatim>\<open>diff --git\<close>, is the \<^const>\<open>dropWhile\<close>.
\<close>

function filter_loop :: "(string \<Rightarrow> bool) \<Rightarrow> string list \<Rightarrow> bool \<Rightarrow> string list \<Rightarrow> string list" where
  "filter_loop isPathIgnored [] skipCurrentFile filtered = filtered"
| "filter_loop isPathIgnored (line # rest) skipCurrentFile filtered =
     (if startsWith line ''diff --git'' then
        (case header_match line of
           Some (oldPath, newPath) \<Rightarrow>
             (if isPathIgnored (filePath_of oldPath newPath) then
                filter_loop isPathIgnored
                  (dropWhile (\<lambda>l. \<not> startsWith l ''diff --git'') rest) True filtered
              else filter_loop isPathIgnored rest False (filtered @ [line]))
         | None \<Rightarrow>
             (if skipCurrentFile then filter_loop isPathIgnored rest skipCurrentFile filtered
              else filter_loop isPathIgnored rest skipCurrentFile (filtered @ [line])))
      else if skipCurrentFile then filter_loop isPathIgnored rest skipCurrentFile filtered
      else filter_loop isPathIgnored rest skipCurrentFile (filtered @ [line]))"
  by pat_completeness auto
termination
  by (relation "measure (\<lambda>(isPathIgnored, lines, skipCurrentFile, filtered). length lines)")
     (auto simp: le_imp_less_Suc length_dropWhile_le)

definition filterIgnoredFilesFromDiff :: "(string \<Rightarrow> bool) \<Rightarrow> string \<Rightarrow> string" where
  "filterIgnoredFilesFromDiff isPathIgnored diff =
     join_nl (filter_loop isPathIgnored (split_nl diff) False [])"

section \<open>Sections of a diff\<close>

text \<open>
  The notions the statements about the filter are written in. A header is a line that
  starts a section; it is parseable when the pattern matches it, and then it has an
  effective path, the one the loop asks the ignore predicate about.
\<close>

definition is_header :: "string \<Rightarrow> bool" where
  "is_header l = startsWith l ''diff --git''"

definition parseable :: "string \<Rightarrow> bool" where
  "parseable l = (is_header l \<and> header_match l \<noteq> None)"

definition effective_path :: "string \<Rightarrow> string option" where
  "effective_path l =
     (case header_match l of
        Some (oldPath, newPath) \<Rightarrow> Some (filePath_of oldPath newPath)
      | None \<Rightarrow> None)"

definition header_ignored :: "(string \<Rightarrow> bool) \<Rightarrow> string \<Rightarrow> bool" where
  "header_ignored isPathIgnored l =
     (case effective_path l of Some p \<Rightarrow> isPathIgnored p | None \<Rightarrow> False)"

text \<open>The value of \<^verbatim>\<open>skipCurrentFile\<close> after a line, from its value before the line.\<close>

definition next_skip :: "(string \<Rightarrow> bool) \<Rightarrow> bool \<Rightarrow> string \<Rightarrow> bool" where
  "next_skip isPathIgnored skip l = (if parseable l then header_ignored isPathIgnored l else skip)"

text \<open>The lines kept, read as one pass with the skip state and no jump ahead.\<close>

fun scan :: "(string \<Rightarrow> bool) \<Rightarrow> bool \<Rightarrow> string list \<Rightarrow> string list" where
  "scan isPathIgnored skip [] = []"
| "scan isPathIgnored skip (l # ls) =
     (if next_skip isPathIgnored skip l then scan isPathIgnored True ls
      else l # scan isPathIgnored False ls)"

text \<open>
  Whether the most recent parseable header among the lines \<open>pre\<close> was ignored; false
  when \<open>pre\<close> has no parseable header.
\<close>

definition last_parseable_ignored :: "(string \<Rightarrow> bool) \<Rightarrow> string list \<Rightarrow> bool" where
  "last_parseable_ignored isPathIgnored pre =
     (case find parseable (rev pre) of
        None \<Rightarrow> False
      | Some p \<Rightarrow> header_ignored isPathIgnored p)"

section \<open>Rendering\<close>

text \<open>
  \<^verbatim>\<open>chalk\<close> is an external library that wraps a string in the escape sequences of a colour
  (or returns it as it is when the terminal has no colours); it is a parameter here.
\<close>

datatype colour = Green | Red | Blue | Yellow | Gray | Magenta

text \<open>A missing field of the option bag is \<^const>\<open>None\<close>; only \<^verbatim>\<open>true\<close> is truthy.\<close>

fun truthy :: "bool option \<Rightarrow> bool" where
  "truthy (Some b) = b"
| "truthy None = False"

text \<open>A string option is truthy when it is present and not the empty string.\<close>

fun truthy_str :: "string option \<Rightarrow> bool" where
  "truthy_str (Some s) = (s \<noteq> [])"
| "truthy_str None = False"

text \<open>A string option inside a template literal.\<close>

fun template_str :: "string option \<Rightarrow> string" where
  "template_str (Some s) = s"
| "template_str None = ''undefined''"

record GitDiffOptions =
  staged :: "bool option"
  unstaged :: "bool option"
  all :: "bool option"
  branch :: "string option"
  commit :: "string option"
  file_opt :: "string option"
  context_opt :: "int option"
  color :: "bool option"
  wordDiff :: "bool option"

text \<open>The callback of \<^verbatim>\<open>.map\<close> in \<^verbatim>\<open>formatDiffOutput\<close>.\<close>

definition colorLine :: "(colour \<Rightarrow> string \<Rightarrow> string) \<Rightarrow> string \<Rightarrow> string" where
  "colorLine chalk line =
     (if startsWith line ''+'' then chalk Green line
      else if startsWith line ''-'' then chalk Red line
      else if startsWith line ''@@'' then chalk Blue line
      else if startsWith line ''diff --git'' then chalk Yellow line
      else if startsWith line ''index'' then chalk Gray line
      else line)"

text \<open>\<^verbatim>\<open>formatDiffOutput\<close> of \<^verbatim>\<open>cli/src/cli.ts\<close>: the colouring alone.\<close>

definition formatDiffOutput_cli ::
  "(colour \<Rightarrow> string \<Rightarrow> string) \<Rightarrow> string \<Rightarrow> GitDiffOptions \<Rightarrow> string" where
  "formatDiffOutput_cli chalk diff options =
     (if \<not> truthy (color options) then diff
      else join_nl (map (colorLine chalk) (split_nl diff)))"

text \<open>\<^verbatim>\<open>formatDiffOutput\<close> of the main build: it filters the ignored files first.\<close>

definition formatDiffOutput ::
  "(string \<Rightarrow> bool) \<Rightarrow> (colour \<Rightarrow> string \<Rightarrow> string) \<Rightarrow> string \<Rightarrow> GitDiffOptions \<Rightarrow> string" where
  "formatDiffOutput isPathIgnored chalk diff options =
     (let filteredDiff = filterIgnoredFilesFromDiff isPathIgnored diff
      in if \<not> truthy (color options) then filteredDiff
         else join_nl (map (colorLine chalk) (split_nl filteredDiff)))"

section \<open>The command synthesizer\<close>

text \<open>
  A number is modelled as an integer. \<^verbatim>\<open>parseInt\<close> rounds a value beyond \<open>2\<^sup>5\<^sup>3\<close> to
  the nearest double (and a very long run of digits to \<^verbatim>\<open>Infinity\<close>), and a template
  literal prints a number from \<open>10\<^sup>2\<^sup>1\<close> on in exponent notation; the model keeps the
  integer as it is written and prints all its digits. There only the characters printed
  after \<^verbatim>\<open>-U\<close> differ, not whether or where they are printed.
\<close>

fun digits :: "nat \<Rightarrow> string" where
  "digits n =
     (if n < 10 then [''0123456789'' ! n]
      else digits (n div 10) @ [''0123456789'' ! (n mod 10)])"

text \<open>The conversion of a number inside a template literal.\<close>

definition number_toString :: "int \<Rightarrow> string" where
  "number_toString n = (if n < 0 then CHR ''-'' # digits (nat (- n)) else digits (nat n))"

text \<open>The first \<^verbatim>\<open>if\<close> chain of \<^verbatim>\<open>checkDiff\<close>: the pair \<^verbatim>\<open>(diffCommand, description)\<close>.\<close>

definition select_mode :: "GitDiffOptions \<Rightarrow> string \<times> string" where
  "select_mode options =
     (if truthy (staged options) then (''git diff --cached'', ''Staged changes'')
      else if truthy (unstaged options) then (''git diff'', ''Unstaged changes'')
      else if truthy (all options) then (''git diff HEAD'', ''All changes (staged + unstaged)'')
      else if truthy_str (branch options) then
        (''git diff '' @ template_str (branch options),
         ''Changes compared to '' @ template_str (branch options))
      else if truthy_str (commit options) then
        (''git diff '' @ template_str (commit options),
         ''Changes compared to '' @ template_str (commit options))
      else (''git diff'', ''Working directory changes''))"

definition description :: "GitDiffOptions \<Rightarrow> string" where
  "description options = snd (select_mode options)"

text \<open>The four steps after the chain, each on the command built so far.\<close>

definition add_context :: "GitDiffOptions \<Rightarrow> string \<Rightarrow> string" where
  "add_context options diffCommand =
     (case context_opt options of
        Some n \<Rightarrow> diffCommand @ '' -U'' @ number_toString n
      | None \<Rightarrow> diffCommand)"

definition add_wordDiff :: "GitDiffOptions \<Rightarrow> string \<Rightarrow> string" where
  "add_wordDiff options diffCommand =
     (if truthy (wordDiff options) then diffCommand @ '' --word-diff=color'' else diffCommand)"

definition add_file :: "GitDiffOptions \<Rightarrow> string \<Rightarrow> string" where
  "add_file options diffCommand =
     (if truthy_str (file_opt options) then diffCommand @ '' -- '' @ template_str (file_opt options)
      else diffCommand)"

text \<open>The command that \<^verbatim>\<open>checkDiff\<close> of the main build hands to \<^verbatim>\<open>executeGitCommand\<close>.\<close>

definition diffCommand :: "GitDiffOptions \<Rightarrow> string" where
  "diffCommand options =
     add_file options
       (add_wordDiff options (add_context options (fst (select_mode options)))
        @ '' --ignore-submodules=all'')"

text \<open>The same in \<^verbatim>\<open>cli/src/cli.ts\<close>, which has no step for submodules.\<close>

definition diffCommand_cli :: "GitDiffOptions \<Rightarrow> string" where
  "diffCommand_cli options =
     add_file options (add_wordDiff options (add_context options (fst (select_mode options))))"

subsection \<open>The action of the \<^verbatim>\<open>diff\<close> command\<close>

text \<open>
  \<^verbatim>\<open>parseInt(s)\<close> with no radix: leading white space is dropped, then a sign is read,
  then the prefix \<^verbatim>\<open>0x\<close> or \<^verbatim>\<open>0X\<close> selects radix 16, then the longest run of digits of
  the radix is the value. No digit at all is \<^verbatim>\<open>NaN\<close>, here \<^const>\<open>None\<close>.
\<close>

definition digit_value :: "char \<Rightarrow> nat" where
  "digit_value c =
     (let n = (of_char c :: nat)
      in if 48 \<le> n \<and> n \<le> 57 then n - 48
         else if 97 \<le> n \<and> n \<le> 122 then n - 87
         else if 65 \<le> n \<and> n \<le> 90 then n - 55
         else 36)"

definition parseInt :: "string \<Rightarrow> int option" where
  "parseInt inputString =
     (let S = dropWhile is_whitespace inputString;
          sign = (if startsWith S ''-'' then - 1 else 1 :: int);
          S1 = (if startsWith S ''+'' \<or> startsWith S ''-'' then drop 1 S else S);
          hex = (startsWith S1 ''0x'' \<or> startsWith S1 ''0X'');
          R = (if hex then 16 else 10 :: nat);
          S2 = (if hex then drop 2 S1 else S1);
          Z = takeWhile (\<lambda>c. digit_value c < R) S2
      in if Z = [] then None
         else Some (sign * int (foldl (\<lambda>a c. a * R + digit_value c) 0 Z)))"

text \<open>
  The options as \<^verbatim>\<open>commander\<close> hands them to the action: \<^verbatim>\<open>context\<close> is a string,
  \<^verbatim>\<open>"3"\<close> when the option is not given.
\<close>

record CommandOptions =
  cmd_staged :: "bool option"
  cmd_unstaged :: "bool option"
  cmd_all :: "bool option"
  cmd_branch :: "string option"
  cmd_commit :: "string option"
  cmd_file :: "string option"
  cmd_context :: string
  cmd_color :: "bool option"
  cmd_wordDiff :: "bool option"

text \<open>\<^verbatim>\<open>isNaN(context) ? 3 : context\<close>\<close>

definition resolve_context :: "string \<Rightarrow> int" where
  "resolve_context s = (case parseInt s of None \<Rightarrow> 3 | Some n \<Rightarrow> n)"

text \<open>The object \<^verbatim>\<open>{ ...options, context: ... }\<close> that the action passes to \<^verbatim>\<open>checkDiff\<close>.\<close>

definition diff_action :: "CommandOptions \<Rightarrow> GitDiffOptions" where
  "diff_action options =
     \<lparr> staged = cmd_staged options, unstaged = cmd_unstaged options, all = cmd_all options,
       branch = cmd_branch options, commit = cmd_commit options, file_opt = cmd_file options,
       context_opt = Some (resolve_context (cmd_context options)),
       color = cmd_color options, wordDiff = cmd_wordDiff options \<rparr>"

section \<open>The status classifier\<close>

record ChangeCounts =
  modifiedCount :: nat
  addedCount :: nat
  deletedCount :: nat
  renamedCount :: nat
  unmergedCount :: nat
  untrackedCount :: nat

text \<open>
  The callback of \<^verbatim>\<open>status.forEach\<close> in the main build, on the lines printed so far and
  the six counters. \<^verbatim>\<open>substring(0, 2)\<close> is \<^term>\<open>take 2\<close>, \<^verbatim>\<open>substring(3)\<close> is
  \<^term>\<open>drop 3\<close>, also on a shorter line.
\<close>

definition status_step ::
  "(colour \<Rightarrow> string \<Rightarrow> string) \<Rightarrow> string list \<times> ChangeCounts \<Rightarrow> string \<Rightarrow> string list \<times> ChangeCounts" where
  "status_step chalk st fileStatus =
     (let printed = fst st; counts = snd st;
          status = take 2 fileStatus;
          filename = drop 3 fileStatus
      in if CHR ''M'' \<in> set status then
           (printed @ [chalk Yellow (''  Modified: '' @ filename)],
            counts\<lparr>modifiedCount := modifiedCount counts + 1\<rparr>)
         else if CHR ''A'' \<in> set status then
           (printed @ [chalk Green (''  Added: '' @ filename)],
            counts\<lparr>addedCount := addedCount counts + 1\<rparr>)
         else if CHR ''D'' \<in> set status then
           (printed @ [chalk Red (''  Deleted: '' @ filename)],
            counts\<lparr>deletedCount := deletedCount counts + 1\<rparr>)
         else if CHR ''R'' \<in> set status then
           (printed @ [chalk Blue (''  Renamed: '' @ filename)],
            counts\<lparr>renamedCount := renamedCount counts + 1\<rparr>)
         else if CHR ''U'' \<in> set status then
           (printed @ [chalk Magenta (''  Unmerged: '' @ filename)],
            counts\<lparr>unmergedCount := unmergedCount counts + 1\<rparr>)
         else if status = ''??'' then
           (printed @ [chalk Gray (''  Untracked: '' @ filename)],
            counts\<lparr>untrackedCount := untrackedCount counts + 1\<rparr>)
         else (printed, counts))"

definition no_counts :: ChangeCounts where
  "no_counts = \<lparr> modifiedCount = 0, addedCount = 0, deletedCount = 0,
                 renamedCount = 0, unmergedCount = 0, untrackedCount = 0 \<rparr>"

definition status_forEach ::
  "(colour \<Rightarrow> string \<Rightarrow> string) \<Rightarrow> string list \<Rightarrow> string list \<times> ChangeCounts" where
  "status_forEach chalk status = foldl (status_step chalk) ([], no_counts) status"

text \<open>The counters that one call of the callback has changed, for the statements below.\<close>

definition tallied :: "ChangeCounts \<Rightarrow> ChangeCounts \<Rightarrow> nat" where
  "tallied c c' =
     length (filter (\<lambda>f. f c' \<noteq> f c)
       [modifiedCount, addedCount, deletedCount, renamedCount, unmergedCount, untrackedCount])"

text \<open>The number of files that the summary line counts.\<close>

definition total_count :: "ChangeCounts \<Rightarrow> nat" where
  "total_count c =
     modifiedCount c + addedCount c + deletedCount c + renamedCount c + unmergedCount c
     + untrackedCount c"

declare digits.simps [simp del]

section \<open>Lines\<close>

lemma split_nl_not_Nil: "split_nl s \<noteq> []"
  by (induction s) (auto split: list.splits)

lemma join_split_nl: "join_nl (split_nl s) = s"
proof (induction s)
  case Nil
  show ?case by simp
next
  case (Cons c cs)
  obtain l ls where sp: "split_nl cs = l # ls"
    using split_nl_not_Nil [of cs] by (cases "split_nl cs") auto
  with Cons show ?case
    by (cases ls) auto
qed

lemma split_nl_no_LF: "l \<in> set (split_nl s) \<Longrightarrow> LF \<notin> set l"
proof (induction s arbitrary: l)
  case Nil
  then show ?case by simp
next
  case (Cons c cs)
  obtain m ms where sp: "split_nl cs = m # ms"
    using split_nl_not_Nil [of cs] by (cases "split_nl cs") auto
  show ?case
  proof (cases "c = LF")
    case True
    with Cons show ?thesis by auto
  next
    case False
    with Cons.prems sp have "l = c # m \<or> l \<in> set ms" by simp
    then show ?thesis
    proof
      assume "l = c # m"
      moreover have "LF \<notin> set m" using Cons.IH [of m] sp by simp
      ultimately show ?thesis using False by auto
    next
      assume "l \<in> set ms"
      then show ?thesis using Cons.IH [of l] sp by simp
    qed
  qed
qed

lemma split_nl_line: "LF \<notin> set l \<Longrightarrow> split_nl l = [l]"
  by (induction l) auto

lemma split_nl_append_LF: "LF \<notin> set l \<Longrightarrow> split_nl (l @ LF # r) = l # split_nl r"
  by (induction l) auto

lemma split_join_nl:
  "ls \<noteq> [] \<Longrightarrow> (\<And>l. l \<in> set ls \<Longrightarrow> LF \<notin> set l) \<Longrightarrow> split_nl (join_nl ls) = ls"
proof (induction ls rule: join_nl.induct)
  case 1
  then show ?case by simp
next
  case (2 l)
  then show ?case by (simp add: split_nl_line)
next
  case (3 l m ls)
  have "split_nl (join_nl (m # ls)) = m # ls"
    using 3 by simp
  moreover have "LF \<notin> set l" using 3(3) by simp
  ultimately show ?case by (simp add: split_nl_append_LF)
qed

section \<open>The loop as one pass\<close>

text \<open>
  The jump ahead of the inner loop skips exactly the lines that the skip state would drop,
  so the loop keeps the lines of \<^const>\<open>scan\<close>.
\<close>

lemma next_skip_nonheader: "\<not> startsWith l ''diff --git'' \<Longrightarrow> next_skip ign s l = s"
  by (simp add: next_skip_def parseable_def is_header_def)

lemma scan_skip_takeWhile:
  "scan ign True ls = scan ign True (dropWhile (\<lambda>l. \<not> startsWith l ''diff --git'') ls)"
  by (induction ls) (simp_all add: next_skip_nonheader)

lemma filter_loop_scan: "filter_loop ign ls skip acc = acc @ scan ign skip ls"
proof (induction ign ls skip acc rule: filter_loop.induct)
  case (1 ign skip acc)
  show ?case by simp
next
  case (2 ign line rest skip acc)
  show ?case
  proof (cases "startsWith line ''diff --git''")
    case False
    with 2 show ?thesis by (simp add: next_skip_nonheader)
  next
    case hd: True
    show ?thesis
    proof (cases "header_match line")
      case None
      then have "next_skip ign skip line = skip"
        by (simp add: next_skip_def parseable_def)
      with 2 hd None show ?thesis by simp
    next
      case (Some m)
      obtain a b where m: "m = (a, b)" by (cases m)
      have ns: "next_skip ign skip line = ign (filePath_of a b)"
        using hd Some m
        by (simp add: next_skip_def parseable_def is_header_def header_ignored_def effective_path_def)
      show ?thesis
      proof (cases "ign (filePath_of a b)")
        case True
        with 2 hd Some m ns
        show ?thesis using scan_skip_takeWhile [of ign rest] by simp
      next
        case False
        with 2 hd Some m ns
        show ?thesis by simp
      qed
    qed
  qed
qed

lemma scan_subseq_filter: "length (filter P (scan ign s ls)) \<le> length (filter P ls)"
proof (induction ls arbitrary: s)
  case Nil
  show ?case by simp
next
  case (Cons l ls)
  show ?case
    using Cons [of True] Cons [of False] by (simp add: le_SucI)
qed

lemma scan_set: "set (scan ign s ls) \<subseteq> set ls"
  by (induction ls arbitrary: s) auto

lemma scan_kept_not_ignored:
  "l \<in> set (scan ign s ls) \<Longrightarrow> parseable l \<Longrightarrow> \<not> header_ignored ign l"
proof (induction ls arbitrary: s)
  case Nil
  then show ?case by simp
next
  case (Cons x xs)
  show ?case
  proof (cases "next_skip ign s x")
    case True
    with Cons show ?thesis by simp
  next
    case False
    with Cons.prems have "l = x \<or> l \<in> set (scan ign False xs)" by simp
    then show ?thesis
    proof
      assume "l = x"
      with False Cons.prems(2) show ?thesis by (simp add: next_skip_def)
    next
      assume "l \<in> set (scan ign False xs)"
      with Cons.IH Cons.prems(2) show ?thesis by blast
    qed
  qed
qed

lemma scan_append:
  "scan ign s (xs @ ys) = scan ign s xs @ scan ign (foldl (next_skip ign) s xs) ys"
proof (induction xs arbitrary: s)
  case Nil
  show ?case by simp
next
  case (Cons x xs)
  show ?case
    using Cons [of True] Cons [of False] by (cases "next_skip ign s x") simp_all
qed

lemma skip_after_lines:
  "foldl (next_skip ign) s pre =
     (case find parseable (rev pre) of None \<Rightarrow> s | Some p \<Rightarrow> header_ignored ign p)"
  by (induction pre rule: rev_induct) (simp_all add: next_skip_def)

lemma scan_unparseable:
  "(\<And>l. l \<in> set ls \<Longrightarrow> \<not> parseable l) \<Longrightarrow> scan ign s ls = (if s then [] else ls)"
  by (induction ls arbitrary: s) (simp_all add: next_skip_def)

lemma skip_unparseable:
  "(\<And>l. l \<in> set ls \<Longrightarrow> \<not> parseable l) \<Longrightarrow> foldl (next_skip ign) s ls = s"
  by (induction ls) (simp_all add: next_skip_def)

lemma scan_none_ignored:
  "(\<And>l. l \<in> set ls \<Longrightarrow> \<not> header_ignored ign l) \<Longrightarrow> scan ign False ls = ls"
  by (induction ls) (simp_all add: next_skip_def)

lemma filter_none_ignored:
  assumes "\<forall>l \<in> set (split_nl d). \<not> header_ignored ign l"
  shows "filterIgnoredFilesFromDiff ign d = d"
proof -
  have "scan ign False (split_nl d) = split_nl d"
    using assms by (intro scan_none_ignored) blast
  then show ?thesis
    by (simp add: filterIgnoredFilesFromDiff_def filter_loop_scan join_split_nl)
qed

lemma filter_empty: "filterIgnoredFilesFromDiff ign [] = []"
  by (rule filter_none_ignored)
     (simp add: header_ignored_def effective_path_def)

lemma is_header_Nil: "\<not> is_header []"
  by (simp add: is_header_def startsWith_def)

lemma output_lines:
  "split_nl (filterIgnoredFilesFromDiff ign d) =
     (if scan ign False (split_nl d) = [] then [[]] else scan ign False (split_nl d))"
proof (cases "scan ign False (split_nl d) = []")
  case True
  then show ?thesis by (simp add: filterIgnoredFilesFromDiff_def filter_loop_scan)
next
  case False
  have "\<And>l. l \<in> set (scan ign False (split_nl d)) \<Longrightarrow> LF \<notin> set l"
    using scan_set [of ign False "split_nl d"] split_nl_no_LF by blast
  with False show ?thesis
    by (simp add: filterIgnoredFilesFromDiff_def filter_loop_scan split_join_nl)
qed

section \<open>The diff section filter: properties\<close>

text \<open>
  C2: for every raw diff and every ignore predicate, no header line of the output has an
  effective path that the predicate ignores, and the output has at most as many sections
  (header lines) as the input.
\<close>

theorem filter_drops_ignored_sections:
  "(\<forall>l \<in> set (split_nl (filterIgnoredFilesFromDiff ign d)).
      \<forall>p. is_header l \<longrightarrow> effective_path l = Some p \<longrightarrow> \<not> ign p) \<and>
   length (filter is_header (split_nl (filterIgnoredFilesFromDiff ign d)))
     \<le> length (filter is_header (split_nl d))"
proof
  show "\<forall>l \<in> set (split_nl (filterIgnoredFilesFromDiff ign d)).
      \<forall>p. is_header l \<longrightarrow> effective_path l = Some p \<longrightarrow> \<not> ign p"
  proof (intro ballI allI impI)
    fix l p
    assume l: "l \<in> set (split_nl (filterIgnoredFilesFromDiff ign d))"
      and h: "is_header l" and p: "effective_path l = Some p"
    from l h have "l \<in> set (scan ign False (split_nl d))"
      by (auto simp: output_lines is_header_Nil split: if_splits)
    moreover from h p have "parseable l"
      by (auto simp: parseable_def effective_path_def split: option.splits)
    ultimately have "\<not> header_ignored ign l"
      by (rule scan_kept_not_ignored)
    with p show "\<not> ign p" by (simp add: header_ignored_def)
  qed
next
  show "length (filter is_header (split_nl (filterIgnoredFilesFromDiff ign d)))
     \<le> length (filter is_header (split_nl d))"
    using scan_subseq_filter [of is_header ign False "split_nl d"]
    by (simp add: output_lines is_header_Nil)
qed

theorem filter_drops_ignored_sections_witness:
  "''diff --git a/a.txt b/a.txt'' \<in> set (split_nl (filterIgnoredFilesFromDiff (\<lambda>p. p = ''b.log'')
       (''diff --git a/a.txt b/a.txt'' @ LF # ''+x'' @ LF # ''diff --git a/b.log b/b.log'' @ LF # ''+y''))) \<and>
   is_header ''diff --git a/a.txt b/a.txt'' \<and>
   effective_path ''diff --git a/a.txt b/a.txt'' = Some ''a.txt'' \<and>
   ''a.txt'' \<noteq> ''b.log''"
proof -
  let ?ign = "\<lambda>p. p = ''b.log''"
  let ?d = "''diff --git a/a.txt b/a.txt'' @ LF # ''+x'' @ LF # ''diff --git a/b.log b/b.log'' @ LF # ''+y''"
  have h1: "''diff --git a/a.txt b/a.txt'' \<in> set (split_nl (filterIgnoredFilesFromDiff ?ign ?d))"
    by code_simp
  have h2: "is_header ''diff --git a/a.txt b/a.txt''"
    by code_simp
  have h3: "effective_path ''diff --git a/a.txt b/a.txt'' = Some ''a.txt''"
    by code_simp
  have "\<forall>l \<in> set (split_nl (filterIgnoredFilesFromDiff ?ign ?d)).
          \<forall>p. is_header l \<longrightarrow> effective_path l = Some p \<longrightarrow> \<not> ?ign p"
    using filter_drops_ignored_sections [of ?ign ?d] by (rule conjunct1)
  then have "\<forall>p. is_header ''diff --git a/a.txt b/a.txt'' \<longrightarrow>
               effective_path ''diff --git a/a.txt b/a.txt'' = Some p \<longrightarrow> \<not> ?ign p"
    using h1 by (rule bspec)
  then have "is_header ''diff --git a/a.txt b/a.txt'' \<longrightarrow>
               effective_path ''diff --git a/a.txt b/a.txt'' = Some ''a.txt'' \<longrightarrow> \<not> ?ign ''a.txt''"
    by (rule spec)
  then have c: "''a.txt'' \<noteq> ''b.log''"
    using h2 h3 by (rule mp [THEN mp])
  from h1 h2 h3 c show ?thesis by (intro conjI)
qed

text \<open>
  A header of the two-path form, with a source path free of white space and a destination
  free of line terminators, is parsed into exactly these two paths.
\<close>

lemma after_group1_nonspace:
  "\<not> is_whitespace c \<Longrightarrow> after_group1 (c # cs) = None"
  by (simp add: after_group1_def)

lemma after_group1_separator:
  assumes "new \<noteq> []" "list_all (\<lambda>c. \<not> is_line_terminator c) new"
  shows "after_group1 ('' b/'' @ new) = Some new"
  using assms
  by (simp add: after_group1_def is_whitespace_def startsWith_def LF_def CR_def)

lemma match_groups_two_paths:
  assumes "old \<noteq> []" "list_all (\<lambda>c. \<not> is_whitespace c) old"
    and "new \<noteq> []" "list_all (\<lambda>c. \<not> is_line_terminator c) new"
  shows "match_groups g1 (old @ '' b/'' @ new) = Some (g1 @ old, new)"
  using assms(1,2)
proof (induction old arbitrary: g1)
  case Nil
  then show ?case by simp
next
  case (Cons c cs)
  have nt: "\<not> is_line_terminator c"
    using Cons.prems(2) by (auto simp: is_whitespace_def is_line_terminator_def)
  show ?case
  proof (cases cs)
    case Nil
    with nt show ?thesis
      using after_group1_separator [OF assms(3,4)] by simp
  next
    case (Cons d ds)
    have "\<not> is_whitespace d"
      using Cons.prems(2) Cons by simp
    then have "after_group1 (cs @ '' b/'' @ new) = None"
      using Cons by (simp add: after_group1_nonspace)
    moreover have "match_groups (g1 @ [c]) (cs @ '' b/'' @ new) = Some ((g1 @ [c]) @ cs, new)"
      using Cons.IH [of "g1 @ [c]"] Cons.prems(2) Cons by simp
    ultimately show ?thesis using nt by simp
  qed
qed

lemma header_match_two_paths:
  assumes "old \<noteq> []" "list_all (\<lambda>c. \<not> is_whitespace c) old"
    and "new \<noteq> []" "list_all (\<lambda>c. \<not> is_line_terminator c) new"
  shows "header_match (''diff --git a/'' @ old @ '' b/'' @ new) = Some (old, new)"
  using match_groups_two_paths [OF assms, of "[]"]
  by (simp add: startsWith_def)

text \<open>
  C3: for every section whose header the pattern parses into a source and a destination
  path, the path that the ignore predicate is asked about is the destination, unless the
  destination is the sentinel \<^verbatim>\<open>/dev/null\<close>, and then it is the source. The answer for
  that path decides the section: the header and its lines are dropped or kept, and the
  lines after it are read with the answer as the skip state.
\<close>

theorem effective_path_destination_unless_sentinel:
  assumes h: "is_header l"
    and m: "header_match l = Some (oldPath, newPath)"
    and body: "\<forall>x \<in> set body. \<not> is_header x"
  shows "effective_path l = Some (if newPath = ''/dev/null'' then oldPath else newPath) \<and>
         filter_loop ign (l # body @ rest) skip acc =
           acc @ (if ign (if newPath = ''/dev/null'' then oldPath else newPath) then [] else l # body)
               @ filter_loop ign rest (ign (if newPath = ''/dev/null'' then oldPath else newPath)) []"
proof
  show ep: "effective_path l = Some (if newPath = ''/dev/null'' then oldPath else newPath)"
    using m by (simp add: effective_path_def filePath_of_def)
  let ?p = "if newPath = ''/dev/null'' then oldPath else newPath"
  have ns: "next_skip ign skip l = ign ?p"
    using h m ep by (simp add: next_skip_def parseable_def header_ignored_def)
  have un: "\<And>x. x \<in> set body \<Longrightarrow> \<not> parseable x"
    using body by (simp add: parseable_def)
  have b: "scan ign s (body @ rest) = (if s then [] else body) @ scan ign s rest" for s
    by (simp only: scan_append skip_unparseable [OF un] scan_unparseable [OF un])
  show "filter_loop ign (l # body @ rest) skip acc =
           acc @ (if ign ?p then [] else l # body) @ filter_loop ign rest (ign ?p) []"
  proof (cases "ign ?p")
    case True
    with ns b [of True] show ?thesis by (simp add: filter_loop_scan)
  next
    case False
    with ns b [of False] show ?thesis by (simp add: filter_loop_scan)
  qed
qed

theorem effective_path_destination_unless_sentinel_witness:
  "is_header ''diff --git a/old.txt b//dev/null'' \<and>
   header_match ''diff --git a/old.txt b//dev/null'' = Some (''old.txt'', ''/dev/null'') \<and>
   \<not> is_header ''-gone'' \<and>
   effective_path ''diff --git a/old.txt b//dev/null'' = Some ''old.txt''"
proof -
  have h1: "is_header ''diff --git a/old.txt b//dev/null''"
    by code_simp
  have h2: "header_match ''diff --git a/old.txt b//dev/null'' = Some (''old.txt'', ''/dev/null'')"
    by code_simp
  have h3: "\<forall>x \<in> set [''-gone'']. \<not> is_header x"
    by (simp add: is_header_def startsWith_def)
  have "effective_path ''diff --git a/old.txt b//dev/null''
          = Some (if ''/dev/null'' = ''/dev/null'' then ''old.txt'' else ''/dev/null'')"
    using effective_path_destination_unless_sentinel [OF h1 h2 h3] by (rule conjunct1)
  then have c: "effective_path ''diff --git a/old.txt b//dev/null'' = Some ''old.txt''"
    by simp
  have h3': "\<not> is_header ''-gone''"
    using h3 by simp
  from h1 h2 h3' c show ?thesis by (intro conjI)
qed

text \<open>
  The header that git prints for a deleted file names the file on both sides, and the
  sentinel comes only in the \<^verbatim>\<open>+++\<close> line: the destination is the path of the file.
\<close>

lemma real_deletion_dropped:
  "filterIgnoredFilesFromDiff (\<lambda>p. p = ''old.log'')
     (''diff --git a/old.log b/old.log'' @ LF # ''deleted file mode 100644'' @ LF #
      ''--- a/old.log'' @ LF # ''+++ /dev/null'' @ LF # ''-gone'') = []"
  by code_simp

text \<open>
  The pattern consumes the prefix \<^verbatim>\<open>b/\<close>: a destination written \<^verbatim>\<open>b/dev/null\<close> is the
  path \<^verbatim>\<open>dev/null\<close>, not the sentinel.
\<close>

lemma destination_dev_null_is_a_path:
  "header_match ''diff --git a/old.txt b/dev/null'' = Some (''old.txt'', ''dev/null'') \<and>
   effective_path ''diff --git a/old.txt b/dev/null'' = Some ''dev/null''"
  by code_simp

text \<open>
  C4: for every raw diff \<open>d\<close>, filtering with an ignore predicate that is false on every
  path returns \<open>d\<close> unchanged.
\<close>

theorem filter_never_ignored_identity:
  "filterIgnoredFilesFromDiff (\<lambda>p. False) d = d"
  by (rule filter_none_ignored) (simp add: header_ignored_def split: option.splits)

text \<open>
  C10: a header line that the pattern does not match leaves the skip state as it is. With
  the lines \<open>pre\<close> before it, its section (the header \<open>h\<close> and the lines \<open>body\<close> up to
  the next header) is dropped when the most recent parseable header of \<open>pre\<close> was ignored,
  and kept as it is when that header was kept or \<open>pre\<close> has no parseable header; the
  lines \<open>rest\<close> after the section are read in the same skip state.
\<close>

theorem unparseable_header_keeps_skip_state:
  assumes lines: "split_nl d = pre @ h # body @ rest"
    and h: "is_header h" "header_match h = None"
    and body: "\<forall>l \<in> set body. \<not> is_header l"
  shows "filterIgnoredFilesFromDiff ign d =
           join_nl (filter_loop ign pre False []
                    @ (if last_parseable_ignored ign pre then [] else h # body)
                    @ filter_loop ign rest (last_parseable_ignored ign pre) [])
         \<and> last_parseable_ignored ign (pre @ h # body) = last_parseable_ignored ign pre"
proof
  have un: "\<And>l. l \<in> set (h # body) \<Longrightarrow> \<not> parseable l"
    using h body by (auto simp: parseable_def)
  have s: "foldl (next_skip ign) False pre = last_parseable_ignored ign pre"
    by (simp add: skip_after_lines last_parseable_ignored_def)
  have "scan ign False (pre @ (h # body) @ rest) =
          scan ign False pre
          @ (if last_parseable_ignored ign pre then [] else h # body)
          @ scan ign (last_parseable_ignored ign pre) rest"
    by (simp only: scan_append s skip_unparseable [OF un] scan_unparseable [OF un])
  then show "filterIgnoredFilesFromDiff ign d =
           join_nl (filter_loop ign pre False []
                    @ (if last_parseable_ignored ign pre then [] else h # body)
                    @ filter_loop ign rest (last_parseable_ignored ign pre) [])"
    by (simp add: filterIgnoredFilesFromDiff_def lines filter_loop_scan)
  show "last_parseable_ignored ign (pre @ h # body) = last_parseable_ignored ign pre"
  proof -
    have lp: "\<And>xs. last_parseable_ignored ign xs = foldl (next_skip ign) False xs"
      by (simp add: last_parseable_ignored_def skip_after_lines)
    have "foldl (next_skip ign) False (pre @ (h # body)) = foldl (next_skip ign) False pre"
      unfolding foldl_append using un by (rule skip_unparseable)
    then show ?thesis by (simp only: lp)
  qed
qed

theorem unparseable_header_keeps_skip_state_witness:
  "split_nl (''diff --git a/b.log b/b.log'' @ LF # ''+y'' @ LF # ''diff --git broken'' @ LF # ''+z'')
     = [''diff --git a/b.log b/b.log'', ''+y''] @ ''diff --git broken'' # [''+z''] @ [] \<and>
   is_header ''diff --git broken'' \<and>
   header_match ''diff --git broken'' = None \<and>
   \<not> is_header ''+z'' \<and>
   filterIgnoredFilesFromDiff (\<lambda>p. p = ''b.log'')
       (''diff --git a/b.log b/b.log'' @ LF # ''+y'' @ LF # ''diff --git broken'' @ LF # ''+z'') = []"
proof -
  let ?ign = "\<lambda>p. p = ''b.log''"
  let ?d = "''diff --git a/b.log b/b.log'' @ LF # ''+y'' @ LF # ''diff --git broken'' @ LF # ''+z''"
  let ?pre = "[''diff --git a/b.log b/b.log'', ''+y'']"
  have h1: "split_nl ?d = ?pre @ ''diff --git broken'' # [''+z''] @ []"
    by code_simp
  have h2: "is_header ''diff --git broken''"
    by code_simp
  have h3: "header_match ''diff --git broken'' = None"
    by code_simp
  have h4: "\<forall>l \<in> set [''+z'']. \<not> is_header l"
    by (simp add: is_header_def startsWith_def)
  have c: "filterIgnoredFilesFromDiff ?ign ?d =
           join_nl (filter_loop ?ign ?pre False []
                    @ (if last_parseable_ignored ?ign ?pre then [] else ''diff --git broken'' # [''+z''])
                    @ filter_loop ?ign [] (last_parseable_ignored ?ign ?pre) [])"
    using unparseable_header_keeps_skip_state [OF h1 h2 h3 h4, of ?ign] by (rule conjunct1)
  have e: "join_nl (filter_loop ?ign ?pre False []
                    @ (if last_parseable_ignored ?ign ?pre then [] else ''diff --git broken'' # [''+z''])
                    @ filter_loop ?ign [] (last_parseable_ignored ?ign ?pre) []) = []"
    by code_simp
  have h4': "\<not> is_header ''+z''"
    using h4 by simp
  from h1 h2 h3 h4' trans [OF c e] show ?thesis by (intro conjI)
qed

section \<open>Rendering: properties\<close>

text \<open>
  The formatter of the main build is the filter followed by the colouring, and the
  colouring is the formatter of \<^verbatim>\<open>cli/src/cli.ts\<close>.
\<close>

lemma formatDiffOutput_stages:
  "formatDiffOutput ign chalk diff options =
     formatDiffOutput_cli chalk (filterIgnoredFilesFromDiff ign diff) options"
  by (simp add: formatDiffOutput_def formatDiffOutput_cli_def)

lemma colorLine_empty: "colorLine chalk [] = []"
  by (simp add: colorLine_def startsWith_def)

text \<open>
  C8: without colours the formatter returns the text it is given unchanged, for every
  string: the diff itself in \<^verbatim>\<open>cli/src/cli.ts\<close>, and in the main build the filtered
  diff, which is the diff itself when no header of it is ignored. The empty string gives
  the empty string with and without colours.
\<close>

theorem plain_output_unchanged:
  "(\<not> truthy (color options) \<longrightarrow>
      formatDiffOutput_cli chalk diff options = diff \<and>
      formatDiffOutput ign chalk diff options = filterIgnoredFilesFromDiff ign diff \<and>
      ((\<forall>l \<in> set (split_nl diff). \<not> header_ignored ign l) \<longrightarrow>
         formatDiffOutput ign chalk diff options = diff)) \<and>
   formatDiffOutput_cli chalk [] options = [] \<and>
   formatDiffOutput ign chalk [] options = []"
  by (simp add: formatDiffOutput_cli_def formatDiffOutput_def filter_none_ignored
      filter_empty colorLine_empty)

theorem plain_output_unchanged_witness:
  "\<not> truthy (color \<lparr> staged = None, unstaged = None, all = None, branch = None,
       commit = None, file_opt = None, context_opt = Some 3, color = Some False, wordDiff = None \<rparr>) \<and>
   formatDiffOutput (\<lambda>p. p = ''b.log'') (\<lambda>c s. s)
       (''diff --git a/a.txt b/a.txt'' @ LF # ''+x'' @ LF # ''diff --git a/b.log b/b.log'' @ LF # ''+y'')
       \<lparr> staged = None, unstaged = None, all = None, branch = None,
         commit = None, file_opt = None, context_opt = Some 3, color = Some False, wordDiff = None \<rparr>
     = ''diff --git a/a.txt b/a.txt'' @ LF # ''+x''"
proof -
  let ?o = "\<lparr> staged = None, unstaged = None, all = None, branch = None,
       commit = None, file_opt = None, context_opt = Some 3, color = Some False, wordDiff = None \<rparr>"
  let ?ign = "\<lambda>p. p = ''b.log''"
  let ?d = "''diff --git a/a.txt b/a.txt'' @ LF # ''+x'' @ LF # ''diff --git a/b.log b/b.log'' @ LF # ''+y''"
  have h: "\<not> truthy (color ?o)" by simp
  from plain_output_unchanged [of ?o "\<lambda>c s. s" ?d ?ign] h
  have c: "formatDiffOutput ?ign (\<lambda>c s. s) ?d ?o = filterIgnoredFilesFromDiff ?ign ?d"
    by blast
  have e: "filterIgnoredFilesFromDiff ?ign ?d = ''diff --git a/a.txt b/a.txt'' @ LF # ''+x''"
    by code_simp
  from h trans [OF c e] show ?thesis by (rule conjI)
qed

section \<open>The command synthesizer: properties\<close>

text \<open>
  C1: the chain selects one branch, by the precedence staged, unstaged, all, branch,
  commit, default: each of the six conditions below excludes the others and one of them
  holds. With both \<^verbatim>\<open>staged\<close> and \<^verbatim>\<open>all\<close> set the description is
  \<^verbatim>\<open>Staged changes\<close>, not \<^verbatim>\<open>All changes (staged + unstaged)\<close>.
\<close>

theorem mode_precedence:
  "length (filter id
     [truthy (staged options),
      \<not> truthy (staged options) \<and> truthy (unstaged options),
      \<not> truthy (staged options) \<and> \<not> truthy (unstaged options) \<and> truthy (all options),
      \<not> truthy (staged options) \<and> \<not> truthy (unstaged options) \<and> \<not> truthy (all options) \<and>
        truthy_str (branch options),
      \<not> truthy (staged options) \<and> \<not> truthy (unstaged options) \<and> \<not> truthy (all options) \<and>
        \<not> truthy_str (branch options) \<and> truthy_str (commit options),
      \<not> truthy (staged options) \<and> \<not> truthy (unstaged options) \<and> \<not> truthy (all options) \<and>
        \<not> truthy_str (branch options) \<and> \<not> truthy_str (commit options)]) = 1 \<and>
   (truthy (staged options) \<longrightarrow>
      select_mode options = (''git diff --cached'', ''Staged changes'')) \<and>
   (\<not> truthy (staged options) \<and> truthy (unstaged options) \<longrightarrow>
      select_mode options = (''git diff'', ''Unstaged changes'')) \<and>
   (\<not> truthy (staged options) \<and> \<not> truthy (unstaged options) \<and> truthy (all options) \<longrightarrow>
      select_mode options = (''git diff HEAD'', ''All changes (staged + unstaged)'')) \<and>
   (\<not> truthy (staged options) \<and> \<not> truthy (unstaged options) \<and> \<not> truthy (all options) \<and>
    truthy_str (branch options) \<longrightarrow>
      select_mode options =
        (''git diff '' @ template_str (branch options),
         ''Changes compared to '' @ template_str (branch options))) \<and>
   (\<not> truthy (staged options) \<and> \<not> truthy (unstaged options) \<and> \<not> truthy (all options) \<and>
    \<not> truthy_str (branch options) \<and> truthy_str (commit options) \<longrightarrow>
      select_mode options =
        (''git diff '' @ template_str (commit options),
         ''Changes compared to '' @ template_str (commit options))) \<and>
   (\<not> truthy (staged options) \<and> \<not> truthy (unstaged options) \<and> \<not> truthy (all options) \<and>
    \<not> truthy_str (branch options) \<and> \<not> truthy_str (commit options) \<longrightarrow>
      select_mode options = (''git diff'', ''Working directory changes'')) \<and>
   (truthy (staged options) \<and> truthy (all options) \<longrightarrow>
      description options = ''Staged changes'' \<and>
      description options \<noteq> ''All changes (staged + unstaged)'')"
  by (simp add: select_mode_def description_def)

theorem mode_precedence_witness:
  "truthy (staged \<lparr> staged = Some True, unstaged = None, all = Some True, branch = None,
       commit = None, file_opt = None, context_opt = Some 3, color = Some True, wordDiff = None \<rparr>) \<and>
   truthy (all \<lparr> staged = Some True, unstaged = None, all = Some True, branch = None,
       commit = None, file_opt = None, context_opt = Some 3, color = Some True, wordDiff = None \<rparr>) \<and>
   description \<lparr> staged = Some True, unstaged = None, all = Some True, branch = None,
       commit = None, file_opt = None, context_opt = Some 3, color = Some True, wordDiff = None \<rparr>
     = ''Staged changes''"
proof -
  let ?o = "\<lparr> staged = Some True, unstaged = None, all = Some True, branch = None,
       commit = None, file_opt = None, context_opt = Some 3, color = Some True, wordDiff = None \<rparr>"
  have h: "truthy (staged ?o) \<and> truthy (all ?o)" by simp
  from mode_precedence [of ?o] h have "description ?o = ''Staged changes''" by blast
  with h show ?thesis by blast
qed

text \<open>
  C5: the command that the \<^verbatim>\<open>diff\<close> action runs is the command of the selected mode,
  then the context count (the parsed value or the default), then the word-diff flag when
  asked for, then the submodule flag, then the path when a file filter is given.
\<close>

theorem command_suffix_order:
  "diffCommand (diff_action options) =
     fst (select_mode (diff_action options))
     @ '' -U'' @ number_toString (resolve_context (cmd_context options))
     @ (if truthy (cmd_wordDiff options) then '' --word-diff=color'' else [])
     @ '' --ignore-submodules=all''
     @ (if truthy_str (cmd_file options) then '' -- '' @ template_str (cmd_file options) else [])"
  by (simp add: diffCommand_def diff_action_def add_file_def add_wordDiff_def add_context_def)

text \<open>The build in \<^verbatim>\<open>cli/src/cli.ts\<close> appends the same without the submodule flag.\<close>

lemma diffCommand_cli_suffix_order:
  "diffCommand_cli (diff_action options) =
     fst (select_mode (diff_action options))
     @ '' -U'' @ number_toString (resolve_context (cmd_context options))
     @ (if truthy (cmd_wordDiff options) then '' --word-diff=color'' else [])
     @ (if truthy_str (cmd_file options) then '' -- '' @ template_str (cmd_file options) else [])"
  by (simp add: diffCommand_cli_def diff_action_def add_file_def add_wordDiff_def add_context_def)

text \<open>
  \<^verbatim>\<open>checkDiff\<close> itself appends the context count only for an option bag that has one;
  the action always supplies it.
\<close>

lemma diffCommand_without_context:
  "context_opt options = None \<Longrightarrow>
   diffCommand options =
     fst (select_mode options)
     @ (if truthy (wordDiff options) then '' --word-diff=color'' else [])
     @ '' --ignore-submodules=all''
     @ (if truthy_str (file_opt options) then '' -- '' @ template_str (file_opt options) else [])"
  by (simp add: diffCommand_def add_file_def add_wordDiff_def add_context_def)

lemma diffCommand_default_context:
  "diffCommand (diff_action \<lparr> cmd_staged = None, cmd_unstaged = None, cmd_all = None,
       cmd_branch = None, cmd_commit = None, cmd_file = None, cmd_context = ''3'',
       cmd_color = Some True, cmd_wordDiff = None \<rparr>) = ''git diff -U3 --ignore-submodules=all''"
  by code_simp

lemma parseInt_non_numeric:
  assumes "\<not> is_whitespace c" "c \<noteq> CHR ''+''" "c \<noteq> CHR ''-''" "\<not> digit_value c < 10"
  shows "parseInt (c # cs) = None"
proof -
  have "c \<noteq> CHR ''0''"
    using assms(4) by (auto simp: digit_value_def)
  with assms show ?thesis
    by (simp add: parseInt_def startsWith_def)
qed

text \<open>
  C9: for a context option that starts with a character that is neither white space, a
  sign nor a digit, such as \<^verbatim>\<open>abc\<close>, \<^verbatim>\<open>parseInt\<close> gives \<^verbatim>\<open>NaN\<close>, the action passes
  the default 3 to \<^verbatim>\<open>checkDiff\<close>, and the command gets \<^verbatim>\<open>-U3\<close>; the action has no
  failing branch.
\<close>

theorem non_numeric_context_default:
  assumes "\<not> is_whitespace c" "c \<noteq> CHR ''+''" "c \<noteq> CHR ''-''" "\<not> digit_value c < 10"
  shows "parseInt (c # cs) = None \<and>
         context_opt (diff_action (options\<lparr>cmd_context := c # cs\<rparr>)) = Some 3 \<and>
         add_context (diff_action (options\<lparr>cmd_context := c # cs\<rparr>)) cmd = cmd @ '' -U3''"
  using parseInt_non_numeric [OF assms, of cs]
  by (simp add: diff_action_def resolve_context_def add_context_def number_toString_def digits.simps)

theorem non_numeric_context_default_witness:
  "\<not> is_whitespace (CHR ''a'') \<and> CHR ''a'' \<noteq> CHR ''+'' \<and> CHR ''a'' \<noteq> CHR ''-'' \<and>
   \<not> digit_value (CHR ''a'') < 10 \<and>
   parseInt ''abc'' = None \<and>
   context_opt (diff_action \<lparr> cmd_staged = None, cmd_unstaged = None, cmd_all = None,
       cmd_branch = None, cmd_commit = None, cmd_file = None, cmd_context = ''abc'',
       cmd_color = Some True, cmd_wordDiff = None \<rparr>) = Some 3"
proof -
  let ?o = "\<lparr> cmd_staged = None, cmd_unstaged = None, cmd_all = None,
       cmd_branch = None, cmd_commit = None, cmd_file = None, cmd_context = ''3'',
       cmd_color = Some True, cmd_wordDiff = None \<rparr>"
  have h1: "\<not> is_whitespace (CHR ''a'')"
    by (simp add: is_whitespace_def LF_def CR_def)
  have h2: "CHR ''a'' \<noteq> CHR ''+''" by simp
  have h3: "CHR ''a'' \<noteq> CHR ''-''" by simp
  have h4: "\<not> digit_value (CHR ''a'') < 10"
    by (simp add: digit_value_def)
  note c = non_numeric_context_default [OF h1 h2 h3 h4, of "''bc''" ?o "[]"]
  from c have c1: "parseInt ''abc'' = None" by (rule conjunct1)
  from c have "context_opt (diff_action (?o\<lparr>cmd_context := ''abc''\<rparr>)) = Some 3"
    by (rule conjunct2 [THEN conjunct1])
  then have c2: "context_opt (diff_action \<lparr> cmd_staged = None, cmd_unstaged = None, cmd_all = None,
       cmd_branch = None, cmd_commit = None, cmd_file = None, cmd_context = ''abc'',
       cmd_color = Some True, cmd_wordDiff = None \<rparr>) = Some 3"
    by simp
  from h1 h2 h3 h4 c1 c2 show ?thesis by (intro conjI)
qed

section \<open>The status classifier: properties\<close>

lemma tallied_le_1: "tallied c (snd (status_step chalk (pr, c) l)) \<le> 1"
proof -
  let ?s = "take 2 l"
  consider (m) "CHR ''M'' \<in> set ?s"
    | (a) "CHR ''M'' \<notin> set ?s" "CHR ''A'' \<in> set ?s"
    | (d) "CHR ''M'' \<notin> set ?s" "CHR ''A'' \<notin> set ?s" "CHR ''D'' \<in> set ?s"
    | (r) "CHR ''M'' \<notin> set ?s" "CHR ''A'' \<notin> set ?s" "CHR ''D'' \<notin> set ?s"
          "CHR ''R'' \<in> set ?s"
    | (u) "CHR ''M'' \<notin> set ?s" "CHR ''A'' \<notin> set ?s" "CHR ''D'' \<notin> set ?s"
          "CHR ''R'' \<notin> set ?s" "CHR ''U'' \<in> set ?s"
    | (q) "CHR ''M'' \<notin> set ?s" "CHR ''A'' \<notin> set ?s" "CHR ''D'' \<notin> set ?s"
          "CHR ''R'' \<notin> set ?s" "CHR ''U'' \<notin> set ?s" "?s = ''??''"
    | (none) "CHR ''M'' \<notin> set ?s" "CHR ''A'' \<notin> set ?s" "CHR ''D'' \<notin> set ?s"
          "CHR ''R'' \<notin> set ?s" "CHR ''U'' \<notin> set ?s" "?s \<noteq> ''??''"
    by blast
  then show ?thesis
  proof cases
    case m
    then show ?thesis by (simp add: status_step_def tallied_def)
  next
    case a
    then show ?thesis by (simp add: status_step_def tallied_def)
  next
    case d
    then show ?thesis by (simp add: status_step_def tallied_def)
  next
    case r
    then show ?thesis by (simp add: status_step_def tallied_def)
  next
    case u
    then show ?thesis by (simp add: status_step_def tallied_def)
  next
    case q
    then show ?thesis by (simp add: status_step_def tallied_def)
  next
    case none
    then show ?thesis by (simp add: status_step_def tallied_def)
  qed
qed

lemma total_count_step:
  "total_count (snd (status_step chalk st l)) \<le> total_count (snd st) + 1"
  by (simp add: status_step_def total_count_def Let_def)

lemma total_count_foldl:
  "total_count (snd (foldl (status_step chalk) st ls)) \<le> total_count (snd st) + length ls"
proof (induction ls arbitrary: st)
  case Nil
  show ?case by simp
next
  case (Cons l ls)
  have "total_count (snd (foldl (status_step chalk) (status_step chalk st l) ls))
          \<le> total_count (snd (status_step chalk st l)) + length ls"
    by (rule Cons.IH)
  also have "\<dots> \<le> (total_count (snd st) + 1) + length ls"
    using total_count_step [of chalk st l] by simp
  finally show ?case by simp
qed

lemma total_count_forEach:
  "total_count (snd (status_forEach chalk status)) \<le> length status"
  using total_count_foldl [of chalk "([], no_counts)" status]
  by (simp add: status_forEach_def no_counts_def total_count_def)

text \<open>
  C6, as stated: some status line is tallied under more than one category. No line is:
  the callback is one chain of alternatives.
\<close>

theorem status_two_categories_counterexample:
  "\<not> (\<exists>chalk printed counts line.
        1 < tallied counts (snd (status_step chalk (printed, counts) line)))"
  using tallied_le_1 by (simp add: not_less)

text \<open>
  C6, amended: every status line, also one whose code has the letters of two kinds of
  changes, is tallied under at most one category, so the counters of the summary add up to
  at most the number of status lines; a line with the code \<^verbatim>\<open>AD\<close> is tallied as added
  only.
\<close>

theorem status_one_category:
  "tallied counts (snd (status_step chalk (printed, counts) line)) \<le> 1 \<and>
   total_count (snd (status_forEach chalk status)) \<le> length status \<and>
   status_step chalk (printed, counts) (''AD'' @ rest) =
     (printed @ [chalk Green (''  Added: '' @ drop 1 rest)],
      counts\<lparr>addedCount := addedCount counts + 1\<rparr>)"
proof (intro conjI)
  show "tallied counts (snd (status_step chalk (printed, counts) line)) \<le> 1"
    by (rule tallied_le_1)
  show "total_count (snd (status_forEach chalk status)) \<le> length status"
    by (rule total_count_forEach)
  show "status_step chalk (printed, counts) (''AD'' @ rest) =
     (printed @ [chalk Green (''  Added: '' @ drop 1 rest)],
      counts\<lparr>addedCount := addedCount counts + 1\<rparr>)"
    by (simp add: status_step_def)
qed

text \<open>
  C7: a status line whose two-character code is \<^verbatim>\<open>??\<close> is recorded as untracked with
  the path from the fourth character on, and counted in the untracked counter alone; the
  counters of the five other categories stay as they are.
\<close>

theorem untracked_separate:
  assumes "take 2 line = ''??''"
  shows "status_step chalk (printed, counts) line =
           (printed @ [chalk Gray (''  Untracked: '' @ drop 3 line)],
            counts\<lparr>untrackedCount := untrackedCount counts + 1\<rparr>) \<and>
         modifiedCount (snd (status_step chalk (printed, counts) line)) = modifiedCount counts \<and>
         addedCount (snd (status_step chalk (printed, counts) line)) = addedCount counts \<and>
         deletedCount (snd (status_step chalk (printed, counts) line)) = deletedCount counts \<and>
         renamedCount (snd (status_step chalk (printed, counts) line)) = renamedCount counts \<and>
         unmergedCount (snd (status_step chalk (printed, counts) line)) = unmergedCount counts \<and>
         untrackedCount (snd (status_step chalk (printed, counts) line)) = untrackedCount counts + 1"
  using assms by (simp add: status_step_def)

theorem untracked_separate_witness:
  "take 2 ''?? newfile.txt'' = ''??'' \<and>
   status_step (\<lambda>c s. s) ([], no_counts) ''?? newfile.txt'' =
     ([''  Untracked: newfile.txt''], no_counts\<lparr>untrackedCount := 1\<rparr>)"
proof -
  have h: "take 2 ''?? newfile.txt'' = ''??''" by simp
  have "status_step (\<lambda>c s. s) ([], no_counts) ''?? newfile.txt'' =
     ([] @ [''  Untracked: '' @ drop 3 ''?? newfile.txt''],
      no_counts\<lparr>untrackedCount := untrackedCount no_counts + 1\<rparr>)"
    using untracked_separate [OF h, of "\<lambda>c s. s" "[]" no_counts] by (rule conjunct1)
  then have "status_step (\<lambda>c s. s) ([], no_counts) ''?? newfile.txt'' =
     ([''  Untracked: newfile.txt''], no_counts\<lparr>untrackedCount := 1\<rparr>)"
    by (simp add: no_counts_def)
  with h show ?thesis by (rule conjI)
qed

end
